theory Spec2Isabelle
  imports Main "HOL-Library.Char_ord" "HOL-Library.List_Lexorder"
begin

section \<open>Bulk mail dispatch (send.py): data model\<close>

text \<open>
  Python strings are modelled as \<open>string\<close> (ASCII text). A line of \<open>smtps.txt\<close> is split
  at \<open>|\<close> into a tuple of strings of whatever length the line has, so a credential
  (\<open>smtp_detail\<close>) is a list of strings; the code unpacks it into four fields and fails
  when that is not possible. Files are a map from file names to their contents.
\<close>

type_synonym smtp_detail = "string list"

type_synonym filesystem = "string \<rightharpoonup> string"

datatype error = ValueError | IndexError | StopIteration

definition LF :: char where
  "LF = CHR 0x0A"

definition CR :: char where
  "CR = CHR 0x0D"

subsection \<open>String helpers of the Python runtime\<close>

text \<open>\<open>str.isspace\<close> on ASCII: tab, line feed, vertical tab, form feed, carriage return,
  the four separators 0x1C..0x1F and the blank.\<close>

definition is_space :: "char \<Rightarrow> bool" where
  "is_space c = (c \<in> set [CHR 0x09, CHR 0x0A, CHR 0x0B, CHR 0x0C, CHR 0x0D,
                           CHR 0x1C, CHR 0x1D, CHR 0x1E, CHR 0x1F, CHR 0x20])"

definition strip :: "string \<Rightarrow> string" where
  "strip s = rev (dropWhile is_space (rev (dropWhile is_space s)))"

text \<open>Iterating over a file opened in text mode: universal newlines (\<open>\r\n\<close> and \<open>\r\<close> are
  read as \<open>\n\<close>), every line keeps its terminator, a last line without one is a line too.\<close>

fun lines_acc :: "string \<Rightarrow> string \<Rightarrow> string list" where
  "lines_acc acc [] = (if acc = [] then [] else [acc])"
| "lines_acc acc (c # cs) =
     (if c = LF then (acc @ [LF]) # lines_acc [] cs
      else if c = CR then
        (case cs of
           [] \<Rightarrow> [acc @ [LF]]
         | d # ds \<Rightarrow> if d = LF then (acc @ [LF]) # lines_acc [] ds
                     else (acc @ [LF]) # lines_acc [] (d # ds))
      else lines_acc (acc @ [c]) cs)"

definition file_lines :: "string \<Rightarrow> string list" where
  "file_lines content = lines_acc [] content"

text \<open>\<open>file.write(f"{e}\n")\<close> for each element written.\<close>

definition write_lines :: "string list \<Rightarrow> string" where
  "write_lines es = concat (map (\<lambda>e. e @ [LF]) es)"

text \<open>\<open>int(s)\<close> for a string: surrounding whitespace is ignored, then an optional sign and
  decimal digits, single underscores allowed between digits; anything else raises
  ValueError.\<close>

definition is_digit :: "char \<Rightarrow> bool" where
  "is_digit c = (c \<in> set ''0123456789'')"

definition digit_val :: "char \<Rightarrow> int" where
  "digit_val c = int (of_char c) - 48"

fun digits_acc :: "int \<Rightarrow> string \<Rightarrow> int option" where
  "digits_acc n [] = Some n"
| "digits_acc n [c] = (if is_digit c then Some (10 * n + digit_val c) else None)"
| "digits_acc n (c # d # cs) =
     (if is_digit c then digits_acc (10 * n + digit_val c) (d # cs)
      else if c = CHR ''_'' \<and> is_digit d then digits_acc (10 * n + digit_val d) cs
      else None)"

definition parse_digits :: "string \<Rightarrow> int option" where
  "parse_digits s =
     (case s of [] \<Rightarrow> None
      | c # cs \<Rightarrow> if is_digit c then digits_acc (digit_val c) cs else None)"

definition py_int :: "string \<Rightarrow> error + int" where
  "py_int s =
     (let t = strip s;
          r = (case t of
                 [] \<Rightarrow> None
               | c # cs \<Rightarrow> if c = CHR ''-'' then map_option uminus (parse_digits cs)
                           else if c = CHR ''+'' then parse_digits cs
                           else parse_digits t)
      in case r of None \<Rightarrow> Inl ValueError | Some n \<Rightarrow> Inr n)"

text \<open>\<open>os.path.basename\<close>: what follows the last slash.\<close>

definition basename :: "string \<Rightarrow> string" where
  "basename p = rev (takeWhile (\<lambda>c. c \<noteq> CHR ''/'') (rev p))"

subsection \<open>\<open>is_valid_email\<close>, \<open>load_email_addresses\<close>\<close>

definition is_valid_email :: "string \<Rightarrow> bool" where
  "is_valid_email email = (CHR ''@'' \<in> set email \<and> CHR ''.'' \<in> set email)"

text \<open>A file that cannot be opened gives the empty set (the exception is logged).\<close>

definition load_email_addresses :: "filesystem \<Rightarrow> string \<Rightarrow> string set" where
  "load_email_addresses fs filename =
     (case fs filename of
        None \<Rightarrow> {}
      | Some content \<Rightarrow> set (filter is_valid_email (map strip (file_lines content))))"

subsection \<open>\<open>create_message\<close>\<close>

text \<open>A MIME multipart message: the three headers and the attached parts. The base64
  transfer encoding of the attachment is not modelled: the part holds the bytes read.\<close>

datatype part = HtmlBody string | Attachment string string

record message =
  msg_from :: string
  msg_to :: string
  msg_subject :: string
  msg_parts :: "part list"

definition create_message ::
  "filesystem \<Rightarrow> string \<Rightarrow> string \<Rightarrow> string \<Rightarrow> string \<Rightarrow> string option \<Rightarrow> message" where
  "create_message fs subject body from_email to_email attachment_path =
     (let parts = [HtmlBody body];
          attached =
            (case attachment_path of
               None \<Rightarrow> []
             | Some p \<Rightarrow>
                 if p = [] then []
                 else (case fs p of
                         None \<Rightarrow> []
                       | Some bytes \<Rightarrow> [Attachment (basename p) bytes]))
      in \<lparr> msg_from = from_email, msg_to = to_email, msg_subject = subject,
           msg_parts = parts @ attached \<rparr>)"

subsection \<open>\<open>send_email\<close>: ten attempts, three connection modes each\<close>

text \<open>
  The three \<open>with\<close> blocks of an attempt, in the order of the source. What the network
  and the server do is outside the program: it is the parameter \<open>net\<close>, giving for
  each attempt number and mode how the block ends if it is executed: it reaches
  \<open>return True\<close>, it raises an \<open>smtplib.SMTPException\<close> (which includes
  \<open>SMTPAuthenticationError\<close>), or it raises another \<open>Exception\<close> (a refused connection,
  a failed name lookup, a connect timeout, an SSL error are \<open>OSError\<close>s that are not
  \<open>SMTPException\<close>s).
\<close>

datatype mode = STARTTLS | TLS | SSL_TLS

datatype outcome = Sent | SMTPError | OtherError

type_synonym net = "nat \<Rightarrow> mode \<Rightarrow> outcome"

datatype event = Construct message | Connect nat mode | Sleep nat

text \<open>
  The body of the outer \<open>try\<close> after the message is built. Each inner \<open>except\<close> catches
  \<open>SMTPException\<close> only, so an \<open>OtherError\<close> leaves the body at once, to the outer
  \<open>except Exception\<close>. The result is the modes executed and whether \<open>return True\<close> was
  reached.
\<close>

definition try_modes :: "(mode \<Rightarrow> outcome) \<Rightarrow> mode list \<times> bool" where
  "try_modes out =
     (case out STARTTLS of
        Sent \<Rightarrow> ([STARTTLS], True)
      | OtherError \<Rightarrow> ([STARTTLS], False)
      | SMTPError \<Rightarrow>
          (case out TLS of
             Sent \<Rightarrow> ([STARTTLS, TLS], True)
           | OtherError \<Rightarrow> ([STARTTLS, TLS], False)
           | SMTPError \<Rightarrow>
               (case out SSL_TLS of
                  Sent \<Rightarrow> ([STARTTLS, TLS, SSL_TLS], True)
                | OtherError \<Rightarrow> ([STARTTLS, TLS, SSL_TLS], False)
                | SMTPError \<Rightarrow> ([STARTTLS, TLS, SSL_TLS], False))))"

text \<open>The loop \<open>for attempt in range(10)\<close>, over the attempt numbers still to run.\<close>

fun attempts ::
  "filesystem \<Rightarrow> net \<Rightarrow> string \<Rightarrow> string \<Rightarrow> string \<Rightarrow> string \<Rightarrow> string option \<Rightarrow>
   nat list \<Rightarrow> event list \<times> bool" where
  "attempts fs nt subject body from_email to_email attachment_path [] = ([], False)"
| "attempts fs nt subject body from_email to_email attachment_path (attempt # rest) =
     (let msg = create_message fs subject body from_email to_email attachment_path;
          (ms, returned) = try_modes (nt attempt);
          evs = Construct msg # map (Connect attempt) ms
      in if returned then (evs, True)
         else (let (evs', r) =
                     attempts fs nt subject body from_email to_email attachment_path rest
               in (evs @ Sleep 10 # evs', r)))"

definition send_email ::
  "filesystem \<Rightarrow> net \<Rightarrow> smtp_detail \<Rightarrow> string \<Rightarrow> string \<Rightarrow> string \<Rightarrow> string \<Rightarrow>
   string option \<Rightarrow> error + (event list \<times> bool)" where
  "send_email fs nt smtp_detail subject body from_email to_email attachment_path =
     (if length smtp_detail \<noteq> 4 then Inl ValueError
      else (case py_int (smtp_detail ! 1) of
              Inl e \<Rightarrow> Inl e
            | Inr smtp_port \<Rightarrow>
                Inr (attempts fs nt subject body from_email to_email attachment_path
                       [0 ..< 10])))"

subsection \<open>\<open>itertools.cycle\<close> and \<open>next\<close>\<close>

text \<open>
  The generator of the Python documentation: the first pass yields the elements of the
  iterable and saves them, then the saved elements are replayed for ever. \<open>pending\<close> is
  what the first pass has not reached, \<open>replay\<close> what is left of the current pass over
  \<open>saved\<close>. \<open>next\<close> raises StopIteration only for the empty iterable.
\<close>

datatype 'a cycle = Cycle (pending: "'a list") (saved: "'a list") (replay: "'a list")

definition cycle :: "'a list \<Rightarrow> 'a cycle" where
  "cycle xs = Cycle xs [] []"

fun next_cycle :: "'a cycle \<Rightarrow> error + ('a \<times> 'a cycle)" where
  "next_cycle (Cycle (x # p) s r) = Inr (x, Cycle p (s @ [x]) r)"
| "next_cycle (Cycle [] s (y # r)) = Inr (y, Cycle [] s r)"
| "next_cycle (Cycle [] [] []) = Inl StopIteration"
| "next_cycle (Cycle [] (y # s) []) = Inr (y, Cycle [] (y # s) s)"

text \<open>\<open>n\<close> successive calls of \<open>next\<close> by one caller: the values handed out, in order.\<close>

fun next_n :: "nat \<Rightarrow> 'a cycle \<Rightarrow> error + ('a list \<times> 'a cycle)" where
  "next_n 0 c = Inr ([], c)"
| "next_n (Suc n) c =
     (case next_cycle c of
        Inl e \<Rightarrow> Inl e
      | Inr (x, c') \<Rightarrow>
          (case next_n n c' of
             Inl e \<Rightarrow> Inl e
           | Inr (xs, c'') \<Rightarrow> Inr (x # xs, c'')))"

subsection \<open>\<open>remove_email_from_list\<close>\<close>


definition entries :: "string \<Rightarrow> string set" where
  "entries content =
     set (filter (\<lambda>l. l \<noteq> [] \<and> is_valid_email l) (map strip (file_lines content)))"

definition remove_email_from_list ::
  "(string set \<Rightarrow> string list) \<Rightarrow> filesystem \<Rightarrow> string \<Rightarrow> string \<Rightarrow> filesystem" where
  "remove_email_from_list iter fs filename email =
     (case fs filename of
        None \<Rightarrow> fs
      | Some content \<Rightarrow>
          (let emails = entries content
           in if email \<in> emails
              then fs(filename \<mapsto> write_lines (iter (emails - {email})))
              else fs))"

subsection \<open>The shared state of a run and \<open>email_task\<close>\<close>

text \<open>
  \<open>failed_smtp\<close> is a \<open>defaultdict(int)\<close>: a key that is not there counts as 0.
  \<open>counter\<close> reads it that way.
\<close>

record state =
  files :: filesystem
  smtp_cycle :: "smtp_detail cycle"
  failed_smtp :: "smtp_detail \<rightharpoonup> int"
  smtp_failures_to_remove :: "smtp_detail set"

definition counter :: "state \<Rightarrow> smtp_detail \<Rightarrow> int" where
  "counter s c = (case failed_smtp s c of None \<Rightarrow> 0 | Some n \<Rightarrow> n)"

text \<open>The block under \<open>failed_smtp_lock\<close> in the failure branch of \<open>email_task\<close>.\<close>

definition record_failure :: "state \<Rightarrow> smtp_detail \<Rightarrow> state" where
  "record_failure s smtp_detail =
     (let s1 = s\<lparr> failed_smtp := (failed_smtp s)(smtp_detail \<mapsto> counter s smtp_detail + 1) \<rparr>
      in if counter s1 smtp_detail \<ge> 10
         then s1\<lparr> smtp_failures_to_remove := insert smtp_detail (smtp_failures_to_remove s1) \<rparr>
         else s1)"

text \<open>
  One task. The result is the state the task leaves and the exception that escapes it,
  if one does. The sleep of three seconds after a failure changes nothing in the state.
\<close>

definition email_task ::
  "(string set \<Rightarrow> string list) \<Rightarrow> net \<Rightarrow> string \<Rightarrow> string \<Rightarrow> string option \<Rightarrow>
   string \<Rightarrow> state \<Rightarrow> state \<times> error option" where
  "email_task iter nt subject body attachment_path to_email s =
     (case next_cycle (smtp_cycle s) of
        Inl e \<Rightarrow> (s, Some e)
      | Inr (smtp_detail, cyc) \<Rightarrow>
          (let s1 = s\<lparr> smtp_cycle := cyc \<rparr>
           in if length smtp_detail \<le> 2 then (s1, Some IndexError)
              else (let from_email = smtp_detail ! 2
                    in case send_email (files s1) nt smtp_detail subject body from_email
                              to_email attachment_path of
                         Inl e \<Rightarrow> (s1, Some e)
                       | Inr (evs, ok) \<Rightarrow>
                           if ok
                           then (s1\<lparr> files := remove_email_from_list iter (files s1)
                                                 ''senders.txt'' to_email \<rparr>, None)
                           else (record_failure s1 smtp_detail, None))))"

text \<open>
  \<open>send_emails\<close>: the fresh shared state of a run (the counters, the eviction set, the
  cycle over the credentials), and the tasks of \<open>pool.map\<close> taken one after the other,
  each with the network behaviour it meets. An exception that escapes a task is raised
  again by \<open>pool.map\<close> and ends the run.
\<close>

definition init_state :: "filesystem \<Rightarrow> smtp_detail list \<Rightarrow> state" where
  "init_state fs smtp_details_list =
     \<lparr> files = fs, smtp_cycle = cycle smtp_details_list, failed_smtp = Map.empty,
       smtp_failures_to_remove = {} \<rparr>"

fun pool_map ::
  "(string set \<Rightarrow> string list) \<Rightarrow> string \<Rightarrow> string \<Rightarrow> string option \<Rightarrow>
   (string \<times> net) list \<Rightarrow> state \<Rightarrow> state \<times> error option" where
  "pool_map iter subject body attachment_path [] s = (s, None)"
| "pool_map iter subject body attachment_path ((to_email, nt) # tasks) s =
     (case email_task iter nt subject body attachment_path to_email s of
        (s', Some e) \<Rightarrow> (s', Some e)
      | (s', None) \<Rightarrow> pool_map iter subject body attachment_path tasks s')"

subsection \<open>Positions of the cycle\<close>

text \<open>The cycle stands at index \<open>i\<close> of the list \<open>xs\<close>: in the first pass, in a
  replay, or at the start of a replay.\<close>

definition at_pos :: "'a list \<Rightarrow> nat \<Rightarrow> 'a cycle \<Rightarrow> bool" where
  "at_pos xs i c =
     (c = Cycle (drop i xs) (take i xs) [] \<or> c = Cycle [] xs (drop i xs)
      \<or> (i = 0 \<and> c = Cycle [] xs []))"

subsection \<open>Example states\<close>

text \<open>A state in which one credential has failed nine times.\<close>

definition nine_failures :: state where
  "nine_failures = \<lparr> files = Map.empty, smtp_cycle = cycle [[''h'', ''25'', ''u'', ''p'']],
          failed_smtp = [[''h'', ''25'', ''u'', ''p''] \<mapsto> 9], smtp_failures_to_remove = {} \<rparr>"

subsection \<open>Reading the trace of \<open>send_email\<close>\<close>

text \<open>
  What one attempt does: the message is built, then the modes of \<open>try_modes\<close> are
  connected in turn. \<open>returns\<close> says that the attempt reaches \<open>return True\<close>.
  \<open>trace_of\<close> is the trace of the loop written out: every attempt that does not return
  leaves its events and the sleep of 10 seconds, and the first attempt that returns leaves
  its events and ends the call.
\<close>

definition attempt_events :: "message \<Rightarrow> net \<Rightarrow> nat \<Rightarrow> event list" where
  "attempt_events msg nt attempt =
     Construct msg # map (Connect attempt) (fst (try_modes (nt attempt)))"







subsection \<open>Example networks and stores\<close>

text \<open>Every connection delivers; no connection delivers, the server answering with an
  SMTP error each time; the first STARTTLS connection is refused and every other
  connection would deliver.\<close>

definition all_sent :: net where
  "all_sent attempt m = Sent"



text \<open>A recipient file that is not \<open>senders.txt\<close>, holding one address.\<close>

definition custom_store :: filesystem where
  "custom_store = [''list.txt'' \<mapsto> ''a@x.com'' @ [LF]]"



section \<open>The credential ring\<close>

lemma next_cycle_at_pos:
  assumes "i < length xs" and "at_pos xs i c"
  shows "\<exists>c'. next_cycle c = Inr (xs ! i, c') \<and> at_pos xs (Suc i mod length xs) c'"
proof -
  from assms(1) have d: "drop i xs = xs ! i # drop (Suc i) xs"
    by (simp add: Cons_nth_drop_Suc)
  from assms(1) have t: "take i xs @ [xs ! i] = take (Suc i) xs"
    by (simp add: take_Suc_conv_app_nth)
  consider (first) "c = Cycle (drop i xs) (take i xs) []"
    | (again) "c = Cycle [] xs (drop i xs)"
    | (start) "i = 0" "c = Cycle [] xs []"
    using assms(2) unfolding at_pos_def by blast
  then show ?thesis
  proof cases
    case first
    then have n: "next_cycle c = Inr (xs ! i, Cycle (drop (Suc i) xs) (take (Suc i) xs) [])"
      using d t by simp
    show ?thesis
    proof (cases "Suc i < length xs")
      case True
      then show ?thesis using n by (simp add: at_pos_def)
    next
      case False
      with assms(1) have "Suc i = length xs" by simp
      then show ?thesis using n by (simp add: at_pos_def)
    qed
  next
    case again
    then have n: "next_cycle c = Inr (xs ! i, Cycle [] xs (drop (Suc i) xs))"
      using d by simp
    show ?thesis
    proof (cases "Suc i < length xs")
      case True
      then show ?thesis using n by (simp add: at_pos_def)
    next
      case False
      with assms(1) have "Suc i = length xs" by simp
      then show ?thesis using n by (simp add: at_pos_def)
    qed
  next
    case start
    from assms(1) obtain y ys where xs: "xs = y # ys" by (cases xs) auto
    then have n: "next_cycle c = Inr (xs ! i, Cycle [] xs ys)"
      using start by simp
    show ?thesis
    proof (cases ys)
      case Nil
      then show ?thesis using n xs start by (simp add: at_pos_def)
    next
      case (Cons z zs)
      then show ?thesis using n xs start by (simp add: at_pos_def)
    qed
  qed
qed

lemma next_n_at_pos:
  "i < length xs \<Longrightarrow> at_pos xs i c \<Longrightarrow>
   \<exists>c'. next_n n c = Inr (map (\<lambda>j. xs ! ((i + j) mod length xs)) [0 ..< n], c')
        \<and> at_pos xs ((i + n) mod length xs) c'"
proof (induction n arbitrary: i c)
  case 0
  then show ?case by simp
next
  case (Suc n)
  from next_cycle_at_pos [OF Suc.prems] obtain c1 where
    s: "next_cycle c = Inr (xs ! i, c1)" and p: "at_pos xs (Suc i mod length xs) c1"
    by blast
  from Suc.prems(1) have "0 < length xs" by linarith
  then have lt: "Suc i mod length xs < length xs" by simp
  from Suc.IH [OF lt p] obtain c2 where
    r: "next_n n c1 = Inr (map (\<lambda>j. xs ! ((Suc i mod length xs + j) mod length xs)) [0 ..< n], c2)"
    and q: "at_pos xs ((Suc i mod length xs + n) mod length xs) c2"
    by blast
  have m: "(Suc i mod length xs + j) mod length xs = (i + Suc j) mod length xs" for j
    by (simp add: mod_add_left_eq)
  have "map (\<lambda>j. xs ! ((i + j) mod length xs)) [0 ..< Suc n]
        = xs ! i # map (\<lambda>j. xs ! ((i + Suc j) mod length xs)) [0 ..< n]"
    using Suc.prems(1) by (simp add: upt_conv_Cons map_Suc_upt [symmetric] del: upt_Suc)
  then show ?case using s r q m by simp
qed

lemma at_pos_cycle: "at_pos xs 0 (cycle xs)"
  by (simp add: at_pos_def cycle_def)

text \<open>
  C7. For a non-empty credential list of length \<open>k\<close> and one sequential caller, \<open>k\<close>
  successive \<open>next\<close> calls on the cycle hand out the list itself, every entry once and
  in load order; the call after that hands out the first entry again; and in general the
  \<open>j\<close>-th call hands out entry \<open>j mod k\<close>, so the sequence has period \<open>k\<close>.
\<close>

theorem cycle_round_robin:
  assumes "xs \<noteq> []"
  shows "(\<exists>c. next_n (length xs) (cycle xs) = Inr (xs, c))
       \<and> (\<exists>c. next_n (Suc (length xs)) (cycle xs) = Inr (xs @ [hd xs], c))
       \<and> (\<forall>n. \<exists>c. next_n n (cycle xs)
                     = Inr (map (\<lambda>j. xs ! (j mod length xs)) [0 ..< n], c))"
proof -
  from assms have k: "0 < length xs" by simp
  have g: "\<exists>c. next_n n (cycle xs) = Inr (map (\<lambda>j. xs ! (j mod length xs)) [0 ..< n], c)" for n
    using next_n_at_pos [OF k at_pos_cycle, of n] by auto
  have "map (\<lambda>j. xs ! (j mod length xs)) [0 ..< length xs] = map (\<lambda>j. xs ! j) [0 ..< length xs]"
    by (rule map_cong) simp_all
  then have a: "map (\<lambda>j. xs ! (j mod length xs)) [0 ..< length xs] = xs"
    by (simp add: map_nth)
  have b: "map (\<lambda>j. xs ! (j mod length xs)) [0 ..< Suc (length xs)] = xs @ [hd xs]"
    using assms a by (simp add: hd_conv_nth)
  from g [of "length xs"] have c1: "\<exists>c. next_n (length xs) (cycle xs) = Inr (xs, c)"
    unfolding a .
  from g [of "Suc (length xs)"]
  have c2: "\<exists>c. next_n (Suc (length xs)) (cycle xs) = Inr (xs @ [hd xs], c)"
    unfolding b .
  from c1 c2 g show ?thesis by blast
qed

theorem cycle_round_robin_witness:
  "[''a'', ''b'', ''c''] \<noteq> []
   \<and> (\<exists>c. next_n 3 (cycle [''a'', ''b'', ''c'']) = Inr ([''a'', ''b'', ''c''], c))
   \<and> (\<exists>c. next_n 4 (cycle [''a'', ''b'', ''c'']) = Inr ([''a'', ''b'', ''c'', ''a''], c))"
proof -
  have h: "[''a'', ''b'', ''c''] \<noteq> []" by simp
  have l: "length [''a'', ''b'', ''c''] = 3" "Suc (length [''a'', ''b'', ''c'']) = 4"
    by simp_all
  from cycle_round_robin [OF h] have
    "(\<exists>c. next_n (length [''a'', ''b'', ''c'']) (cycle [''a'', ''b'', ''c''])
            = Inr ([''a'', ''b'', ''c''], c))"
    "(\<exists>c. next_n (Suc (length [''a'', ''b'', ''c''])) (cycle [''a'', ''b'', ''c''])
            = Inr ([''a'', ''b'', ''c''] @ [hd [''a'', ''b'', ''c'']], c))"
    by blast+
  then show ?thesis unfolding l using h by simp
qed

section \<open>The failure tracker\<close>

lemma counter_record_failure:
  "counter (record_failure s c) d = (if d = c then counter s c + 1 else counter s d)"
  by (simp add: record_failure_def counter_def Let_def)

lemma to_remove_record_failure:
  "smtp_failures_to_remove (record_failure s c) =
     (if 10 \<le> counter s c + 1 then insert c (smtp_failures_to_remove s)
      else smtp_failures_to_remove s)"
  by (simp add: record_failure_def counter_def Let_def)

lemma counter_foldl_record_failure:
  "counter (foldl record_failure s cs) c = counter s c + int (count_list cs c)"
  by (induction cs arbitrary: s) (simp_all add: counter_record_failure)

lemma flagged_record_failure:
  assumes "c \<in> smtp_failures_to_remove s \<longleftrightarrow> 10 \<le> counter s c"
  shows "c \<in> smtp_failures_to_remove (record_failure s d)
         \<longleftrightarrow> 10 \<le> counter (record_failure s d) c"
  using assms by (auto simp: counter_record_failure to_remove_record_failure)

lemma flagged_foldl_record_failure:
  "(c \<in> smtp_failures_to_remove s \<longleftrightarrow> 10 \<le> counter s c) \<Longrightarrow>
   c \<in> smtp_failures_to_remove (foldl record_failure s cs)
     \<longleftrightarrow> 10 \<le> counter (foldl record_failure s cs) c"
proof (induction cs arbitrary: s)
  case Nil
  then show ?case by simp
next
  case (Cons d cs)
  from flagged_record_failure [OF Cons.prems]
  show ?case using Cons.IH [of "record_failure s d"] by simp
qed

lemma counter_init_state: "counter (init_state fs creds) c = 0"
  by (simp add: init_state_def counter_def)

lemma to_remove_init_state: "smtp_failures_to_remove (init_state fs creds) = {}"
  by (simp add: init_state_def)

text \<open>
  C1. The block under the lock increments the credential's counter by one on every call.
  Take any order \<open>cs\<close> in which the tasks of a run enter that block, the credential
  \<open>c\<close> occurring exactly 10 times in it: from the fresh state of a run the counter of
  \<open>c\<close> ends at 10 and \<open>c\<close> is in the eviction set. After every prefix of \<open>cs\<close> the
  counter is the number of calls for \<open>c\<close> so far, and \<open>c\<close> is in the set exactly when
  that number has reached 10: it enters at the tenth call, not before, and being an
  element of a set it is there once.
\<close>

theorem record_failure_threshold:
  assumes "count_list cs c = 10"
  shows "(\<forall>s. counter (record_failure s c) c = counter s c + 1)
       \<and> counter (foldl record_failure (init_state fs creds) cs) c = 10
       \<and> c \<in> smtp_failures_to_remove (foldl record_failure (init_state fs creds) cs)
       \<and> (\<forall>n. counter (foldl record_failure (init_state fs creds) (take n cs)) c
                 = int (count_list (take n cs) c)
              \<and> (c \<in> smtp_failures_to_remove
                        (foldl record_failure (init_state fs creds) (take n cs))
                   \<longleftrightarrow> 10 \<le> count_list (take n cs) c))"
proof -
  have i: "c \<in> smtp_failures_to_remove (init_state fs creds)
           \<longleftrightarrow> 10 \<le> counter (init_state fs creds) c"
    by (simp add: counter_init_state to_remove_init_state)
  have cnt: "counter (foldl record_failure (init_state fs creds) xs) c
             = int (count_list xs c)" for xs
    by (simp add: counter_foldl_record_failure counter_init_state)
  have flg: "c \<in> smtp_failures_to_remove (foldl record_failure (init_state fs creds) xs)
             \<longleftrightarrow> 10 \<le> count_list xs c" for xs
    using flagged_foldl_record_failure [OF i, of xs] by (simp add: cnt)
  have a: "\<forall>s. counter (record_failure s c) c = counter s c + 1"
    by (simp add: counter_record_failure)
  from a cnt [of cs] flg [of cs] cnt flg assms show ?thesis by simp
qed

theorem record_failure_threshold_witness:
  "count_list (replicate 4 [''h'', ''25'', ''u'', ''p''] @ [[''g'', ''25'', ''v'', ''q'']]
                 @ replicate 6 [''h'', ''25'', ''u'', ''p''])
              [''h'', ''25'', ''u'', ''p''] = 10
   \<and> counter (foldl record_failure (init_state Map.empty [[''h'', ''25'', ''u'', ''p'']])
                (replicate 4 [''h'', ''25'', ''u'', ''p''] @ [[''g'', ''25'', ''v'', ''q'']]
                 @ replicate 6 [''h'', ''25'', ''u'', ''p'']))
              [''h'', ''25'', ''u'', ''p''] = 10
   \<and> [''h'', ''25'', ''u'', ''p'']
      \<in> smtp_failures_to_remove
           (foldl record_failure (init_state Map.empty [[''h'', ''25'', ''u'', ''p'']])
                (replicate 4 [''h'', ''25'', ''u'', ''p''] @ [[''g'', ''25'', ''v'', ''q'']]
                 @ replicate 6 [''h'', ''25'', ''u'', ''p'']))"
proof -
  have h: "count_list (replicate 4 [''h'', ''25'', ''u'', ''p''] @ [[''g'', ''25'', ''v'', ''q'']]
                 @ replicate 6 [''h'', ''25'', ''u'', ''p''])
              [''h'', ''25'', ''u'', ''p''] = 10"
    by (simp add: eval_nat_numeral)
  from record_failure_threshold [OF h, of Map.empty "[[''h'', ''25'', ''u'', ''p'']]"] h
  show ?thesis by blast
qed


lemma counter_smtp_cycle_update [simp]: "counter (s\<lparr> smtp_cycle := cyc \<rparr>) c = counter s c"
  by (simp add: counter_def)

lemma counter_files_update [simp]: "counter (s\<lparr> files := f \<rparr>) c = counter s c"
  by (simp add: counter_def)

lemma email_task_counter_mono:
  "counter s c \<le> counter (fst (email_task iter nt subject body att to_email s)) c"
  by (simp add: email_task_def Let_def counter_record_failure
           split: sum.split prod.split)

lemma pool_map_counter_mono:
  "counter s c \<le> counter (fst (pool_map iter subject body att tasks s)) c"
proof (induction tasks arbitrary: s)
  case Nil
  then show ?case by simp
next
  case (Cons t tasks)
  obtain to_email nt where t: "t = (to_email, nt)" by (cases t)
  obtain s1 e where r: "email_task iter nt subject body att to_email s = (s1, e)"
    by (cases "email_task iter nt subject body att to_email s")
  from email_task_counter_mono [of s c iter nt subject body att to_email] r
  have m: "counter s c \<le> counter s1 c" by simp
  show ?case
  proof (cases e)
    case None
    with t r m Cons.IH [of s1] show ?thesis by simp
  next
    case (Some x)
    with t r m show ?thesis by simp
  qed
qed

lemma email_task_success_counter:
  assumes "next_cycle (smtp_cycle s) = Inr (d, cyc)" and "2 < length d"
    and "send_email (files s) nt d subject body (d ! 2) to_email att = Inr (evs, True)"
  shows "counter (fst (email_task iter nt subject body att to_email s)) c = counter s c"
  using assms by (simp add: email_task_def Let_def)

lemma py_int_25: "py_int ''25'' = Inr 25"
  by (simp add: py_int_def strip_def is_space_def parse_digits_def is_digit_def
        digit_val_def Let_def)

lemma send_ok: "send_email Map.empty (\<lambda>a m. Sent) [''h'', ''25'', ''u'', ''p''] ''S'' ''B'' ''u''
       ''a@x.com'' None = Inr ([Construct (create_message Map.empty ''S'' ''B'' ''u'' ''a@x.com'' None),
                     Connect 0 STARTTLS], True)"
  by (simp add: send_email_def py_int_25 upt_rec try_modes_def Let_def)

text \<open>
  C6. No task lowers a counter: the counter of every credential after a task is at least
  what it was before, and so after any sequence of tasks of \<open>pool.map\<close>; from the fresh
  state of a run every counter stays non-negative. A task whose delivery succeeds leaves
  every counter as it was, so a credential at 9 failures that then delivers keeps 9.
\<close>

theorem counters_never_decrease:
  "counter s c \<le> counter (fst (email_task iter nt subject body att to_email s)) c
   \<and> counter s c \<le> counter (fst (pool_map iter subject body att tasks s)) c
   \<and> 0 \<le> counter (fst (pool_map iter subject body att tasks (init_state fs creds))) c
   \<and> (next_cycle (smtp_cycle s) = Inr (d, cyc) \<longrightarrow> 2 < length d \<longrightarrow>
       send_email (files s) nt d subject body (d ! 2) to_email att = Inr (evs, True) \<longrightarrow>
       counter (fst (email_task iter nt subject body att to_email s)) c = counter s c)"
proof -
  have "0 \<le> counter (fst (pool_map iter subject body att tasks (init_state fs creds))) c"
    using pool_map_counter_mono [of "init_state fs creds" c iter subject body att tasks]
    by (simp add: counter_init_state)
  then show ?thesis
    by (simp add: email_task_counter_mono pool_map_counter_mono email_task_success_counter)
qed

theorem counters_never_decrease_witness:
  "counter nine_failures [''h'', ''25'', ''u'', ''p''] = 9
   \<and> counter (fst (email_task (\<lambda>S. []) (\<lambda>a m. Sent) ''S'' ''B'' None ''a@x.com'' nine_failures))
        [''h'', ''25'', ''u'', ''p''] = 9"
proof -
  have n: "next_cycle (smtp_cycle nine_failures)
           = Inr ([''h'', ''25'', ''u'', ''p''], Cycle [] [[''h'', ''25'', ''u'', ''p'']] [])"
    by (simp add: nine_failures_def cycle_def)
  have l: "2 < length [''h'', ''25'', ''u'', ''p'']" by simp
  have f: "files nine_failures = Map.empty" by (simp add: nine_failures_def)
  have c: "counter nine_failures [''h'', ''25'', ''u'', ''p''] = 9" by (simp add: nine_failures_def counter_def)
  have se: "send_email (files nine_failures) (\<lambda>a m. Sent) [''h'', ''25'', ''u'', ''p''] ''S'' ''B''
       ([''h'', ''25'', ''u'', ''p''] ! 2) ''a@x.com'' None
     = Inr ([Construct (create_message Map.empty ''S'' ''B'' ''u'' ''a@x.com'' None),
                     Connect 0 STARTTLS], True)"
    using send_ok by (simp add: f)
  from counters_never_decrease [of nine_failures "[''h'', ''25'', ''u'', ''p'']" "\<lambda>S. []" "\<lambda>a m. Sent"
      "''S''" "''B''" None "''a@x.com''" "[]" Map.empty "[]" "[''h'', ''25'', ''u'', ''p'']"
      "Cycle [] [[''h'', ''25'', ''u'', ''p'']] []"
      "[Construct (create_message Map.empty ''S'' ''B'' ''u'' ''a@x.com'' None), Connect 0 STARTTLS]"]
    n l se c
  show ?thesis by simp
qed

section \<open>Delivery: attempts and connection modes\<close>

lemma try_modes_tried:
  "fst (try_modes out) =
     (if out STARTTLS = SMTPError
      then (if out TLS = SMTPError then [STARTTLS, TLS, SSL_TLS] else [STARTTLS, TLS])
      else [STARTTLS])"
  by (cases "out STARTTLS"; cases "out TLS"; cases "out SSL_TLS")
     (simp_all add: try_modes_def)




lemma try_modes_distinct: "distinct (fst (try_modes out))"
  by (simp add: try_modes_tried)





lemma connect_in_attempt:
  "Connect a m \<in> set (attempt_events msg nt k)
   \<longleftrightarrow> a = k \<and> m \<in> set (fst (try_modes (nt k)))"
  by (auto simp: attempt_events_def)
























section \<open>The recipient store\<close>


















lemma py_int_smtp: "py_int ''smtp'' = Inl ValueError"
  by (simp add: py_int_def strip_def is_space_def parse_digits_def is_digit_def Let_def)

text \<open>
  C4 fails on the code: for a credential whose port field is not numeric, \<open>int(smtp_port)\<close>
  stands before the \<open>try\<close> of \<open>send_email\<close>, so ValueError escapes \<open>send_email\<close> and
  \<open>email_task\<close>, whatever the recipient, message and network; \<open>pool.map\<close> raises it
  again and the run ends with it. No counter is incremented and no result is returned.
\<close>

theorem nonnumeric_port_escapes:
  "email_task iter nt subject body att to_email
     (init_state fs [[''mail.x.com'', ''smtp'', ''u@x.com'', ''pw'']])
   = (init_state fs [[''mail.x.com'', ''smtp'', ''u@x.com'', ''pw'']]
        \<lparr> smtp_cycle := Cycle [] [[''mail.x.com'', ''smtp'', ''u@x.com'', ''pw'']] [] \<rparr>,
      Some ValueError)
   \<and> snd (pool_map iter subject body att ((to_email, nt) # tasks)
            (init_state fs [[''mail.x.com'', ''smtp'', ''u@x.com'', ''pw'']]))
     = Some ValueError"
  by (simp add: email_task_def init_state_def cycle_def send_email_def py_int_smtp)

lemma load_custom_store:
  "load_email_addresses custom_store ''list.txt'' = {''a@x.com''}"
  by (simp add: load_email_addresses_def custom_store_def file_lines_def strip_def
        is_space_def is_valid_email_def LF_def CR_def)

lemma send_all_sent:
  "send_email fs all_sent [''h'', ''25'', ''u'', ''p''] ''S'' ''B'' ''u'' ''a@x.com'' None
   = Inr ([Construct (create_message fs ''S'' ''B'' ''u'' ''a@x.com'' None),
           Connect 0 STARTTLS], True)"
  by (simp add: send_email_def py_int_25 upt_rec try_modes_def all_sent_def)

text \<open>
  C5 fails on the code: \<open>email_task\<close> removes the recipient from \<open>senders.txt\<close>, whatever
  file the recipients were loaded from. With the recipients loaded from \<open>list.txt\<close>, a
  delivery that succeeds leaves \<open>list.txt\<close> as it was, the recipient still in it.
\<close>

theorem recipient_stays_in_custom_store:
  "load_email_addresses custom_store ''list.txt'' = {''a@x.com''}
   \<and> snd (email_task iter all_sent ''S'' ''B'' None ''a@x.com''
            (init_state custom_store [[''h'', ''25'', ''u'', ''p'']])) = None
   \<and> files (fst (email_task iter all_sent ''S'' ''B'' None ''a@x.com''
                   (init_state custom_store [[''h'', ''25'', ''u'', ''p'']]))) = custom_store
   \<and> ''a@x.com'' \<in> load_email_addresses
         (files (fst (email_task iter all_sent ''S'' ''B'' None ''a@x.com''
                        (init_state custom_store [[''h'', ''25'', ''u'', ''p'']])))) ''list.txt''"
proof -
  have n: "custom_store ''senders.txt'' = None" by (simp add: custom_store_def)
  have r: "remove_email_from_list iter custom_store ''senders.txt'' ''a@x.com'' = custom_store"
    by (simp add: remove_email_from_list_def n)
  have t: "email_task iter all_sent ''S'' ''B'' None ''a@x.com''
            (init_state custom_store [[''h'', ''25'', ''u'', ''p'']])
           = (init_state custom_store [[''h'', ''25'', ''u'', ''p'']]
                \<lparr> smtp_cycle := Cycle [] [[''h'', ''25'', ''u'', ''p'']] [],
                  files := custom_store \<rparr>, None)"
    by (simp add: email_task_def init_state_def cycle_def send_all_sent r)
  show ?thesis unfolding t by (simp add: load_custom_store init_state_def)
qed

end
